theory Spec2Isabelle
  imports Complex_Main "HOL-Library.Word"
begin

section \<open>JavaScript values used by the field code\<close>

text \<open>
  A JavaScript string is a sequence of UTF-16 code units. The field code uses the code
  units U+00A0 (non-breaking space), U+2026 (ellipsis) and U+200F (right-to-left mark),
  so a code unit is a 16-bit word and not an 8-bit \<open>char\<close>. \<open>js\<close> writes an ASCII literal.
\<close>

type_synonym jschar = "16 word"
type_synonym jsstring = "jschar list"

definition js :: "string \<Rightarrow> jsstring" where
  "js s = map of_char s"

text \<open>
  What a validator hands back: \<open>null\<close> (reject), \<open>undefined\<close> (no opinion) or a string
  (the accepted or rewritten text).
\<close>

datatype vresult = VNull | VUndefined | VString jsstring

text \<open>
  The members of the regular expression class \<open>\s\<close>, which are also the characters
  that \<open>parseFloat\<close> skips at the start of its argument (WhiteSpace and LineTerminator).
\<close>

definition isWhiteSpace :: "jschar \<Rightarrow> bool" where
  "isWhiteSpace c =
     (c = 0x9 \<or> c = 0xA \<or> c = 0xB \<or> c = 0xC \<or> c = 0xD \<or> c = 0x20 \<or> c = 0xA0 \<or>
      c = 0x1680 \<or> (0x2000 \<le> c \<and> c \<le> 0x200A) \<or> c = 0x2028 \<or> c = 0x2029 \<or>
      c = 0x202F \<or> c = 0x205F \<or> c = 0x3000 \<or> c = 0xFEFF)"

section \<open>Numbers: \<open>parseFloat\<close> and \<open>String(n)\<close>\<close>

text \<open>
  \<open>parseFloat\<close> reads the longest prefix of its trimmed argument that is a
  StrDecimalLiteral. The result is kept as the exact decimal it denotes: a sign, a
  mantissa and a power of ten, \<open>(-1)^neg * mant * 10^exp10\<close>. Rounding that decimal to
  a double and printing the double are the runtime's work; they are exact, and modelled
  here, for integers of magnitude at most \<open>2^53\<close>, and are left to the parameter
  \<open>dtoa\<close> of \<open>Number_toString\<close> everywhere else.
\<close>

datatype jsnum = NaN | Infinity bool | Dec bool nat int

definition isDigit :: "jschar \<Rightarrow> bool" where
  "isDigit c = (0x30 \<le> c \<and> c \<le> 0x39)"

definition digitsValue :: "jsstring \<Rightarrow> nat" where
  "digitsValue ds = foldl (\<lambda>a d. 10 * a + (unat d - 48)) 0 ds"

text \<open>The ExponentPart, when it is complete: \<open>e\<close> or \<open>E\<close>, an optional sign and digits.\<close>

definition exponentPart :: "jsstring \<Rightarrow> int" where
  "exponentPart r =
     (case r of
        [] \<Rightarrow> 0
      | e # r1 \<Rightarrow>
          if e = 0x65 \<or> e = 0x45 then
            (let neg = (case r1 of [] \<Rightarrow> False | s # _ \<Rightarrow> s = 0x2D);
                 r2 = (case r1 of [] \<Rightarrow> [] | s # t \<Rightarrow> if s = 0x2D \<or> s = 0x2B then t else r1);
                 ds = takeWhile isDigit r2
             in if ds = [] then 0
                else if neg then - int (digitsValue ds) else int (digitsValue ds))
          else 0)"

definition parseFloat :: "jsstring \<Rightarrow> jsnum" where
  "parseFloat s =
     (let t = dropWhile isWhiteSpace s;
          neg = (case t of [] \<Rightarrow> False | c # _ \<Rightarrow> c = 0x2D);
          r = (case t of [] \<Rightarrow> [] | c # u \<Rightarrow> if c = 0x2D \<or> c = 0x2B then u else t)
      in if take 8 r = js ''Infinity'' then Infinity neg
         else
           (let ip = takeWhile isDigit r;
                r1 = dropWhile isDigit r;
                dot = (case r1 of [] \<Rightarrow> False | c # _ \<Rightarrow> c = 0x2E);
                fp = (if dot then takeWhile isDigit (tl r1) else []);
                r2 = (if dot then dropWhile isDigit (tl r1) else r1)
            in if ip = [] \<and> fp = [] then NaN
               else Dec neg (digitsValue (ip @ fp)) (exponentPart r2 - int (length fp))))"

definition isNaN :: "jsnum \<Rightarrow> bool" where
  "isNaN n = (n = NaN)"

text \<open>The value of a decimal when it is an integer.\<close>

definition integerValue :: "nat \<Rightarrow> int \<Rightarrow> nat option" where
  "integerValue m e =
     (if 0 \<le> e then Some (m * 10 ^ nat e)
      else if m mod 10 ^ nat (- e) = 0 then Some (m div 10 ^ nat (- e))
      else None)"

fun digits_of_nat :: "nat \<Rightarrow> jsstring" where
  "digits_of_nat n =
     (if n < 10 then [of_nat (48 + n)]
      else digits_of_nat (n div 10) @ [of_nat (48 + n mod 10)])"

declare digits_of_nat.simps [simp del]

text \<open>
  \<open>String(n)\<close>. An integer up to \<open>2^53\<close> is a double and prints as its decimal digits,
  zero without a sign; \<open>dtoa\<close> stands for the printing of every other finite value.
\<close>

definition Number_toString :: "(bool \<Rightarrow> nat \<Rightarrow> int \<Rightarrow> jsstring) \<Rightarrow> jsnum \<Rightarrow> jsstring" where
  "Number_toString dtoa n =
     (case n of
        NaN \<Rightarrow> js ''NaN''
      | Infinity neg \<Rightarrow> (if neg then js ''-Infinity'' else js ''Infinity'')
      | Dec neg m e \<Rightarrow>
          (case integerValue m e of
             None \<Rightarrow> dtoa neg m e
           | Some v \<Rightarrow>
               if v \<le> 2 ^ 53
               then (if neg \<and> v \<noteq> 0 then 0x2D # digits_of_nat v else digits_of_nat v)
               else dtoa neg m e))"

section \<open>Fields\<close>

text \<open>
  A field with the attributes the code below reads: its name, its text, the block it
  sits on (with the block's \<open>rendered\<close> and \<open>RTL\<close> flags), the user validator
  (\<open>validator_\<close>, \<open>None\<close> for \<open>null\<close>), the class validator (a method, \<open>Field_classValidator\<close>
  unless a subclass overrides it), \<open>maxDisplayLength\<close>, the cached width
  \<open>size_.width\<close>, and whether the optional hook \<open>onFinishEditing_\<close> is installed.
\<close>

record source_block =
  sb_id :: nat
  sb_rendered :: bool
  sb_RTL :: bool

record field =
  f_name :: "jsstring option"
  f_text :: jsstring
  f_sourceBlock :: "source_block option"
  f_validator :: "(jsstring \<Rightarrow> vresult) option"
  f_classValidator :: "jsstring \<Rightarrow> vresult"
  f_maxDisplayLength :: int
  f_size_width :: int
  f_onFinishEditing :: bool

text \<open>
  What a field operation does besides changing the field, in the order it happens:
  a change event handed to \<open>Blockly.Events.fire\<close> (block, field name, old and new value),
  the source block's \<open>render\<close> and \<open>bumpNeighbours\<close>, the field's own \<open>render\<close> and
  the \<open>onFinishEditing_\<close> hook.
\<close>

datatype effect =
    FireChange nat "jsstring option" jsstring jsstring
  | BlockRender nat
  | BumpNeighbours nat
  | FieldRender
  | FinishEditing jsstring

record fstate =
  fs_field :: field
  fs_eventsEnabled :: bool
  fs_trace :: "effect list"

datatype js_error = TypeError | ProgrammingError

definition Field_classValidator :: "jsstring \<Rightarrow> vresult" where
  "Field_classValidator t = VString t"

definition callValidator :: "field \<Rightarrow> jsstring \<Rightarrow> jsstring option" where
  "callValidator f t0 =
     (case f_classValidator f t0 of
        VNull \<Rightarrow> None
      | classResult \<Rightarrow>
          (let t1 = (case classResult of VString s \<Rightarrow> s | _ \<Rightarrow> t0)
           in case f_validator f of
                None \<Rightarrow> Some t1
              | Some userValidator \<Rightarrow>
                  (case userValidator t1 of
                     VNull \<Rightarrow> None
                   | VUndefined \<Rightarrow> Some t1
                   | VString s \<Rightarrow> Some s)))"

text \<open>
  One stage of the pipeline as the specification words it: \<open>null\<close> rejects,
  \<open>undefined\<close> leaves the text as it is, a string replaces it.
\<close>

definition stage :: "vresult \<Rightarrow> jsstring \<Rightarrow> jsstring option" where
  "stage r t = (case r of VNull \<Rightarrow> None | VUndefined \<Rightarrow> Some t | VString s \<Rightarrow> Some s)"

definition NBSP :: jschar where "NBSP = 0xA0"
definition ELLIPSIS :: jschar where "ELLIPSIS = 0x2026"
definition RLM :: jschar where "RLM = 0x200F"

text \<open>
  \<open>getDisplayText_\<close> (a name cannot end in an underscore here). \<open>substring(0, n)\<close> takes no character for a negative \<open>n\<close>.
  A non-empty text on a field without a source block fails at \<open>this.sourceBlock.RTL\<close>.
\<close>

definition getDisplayText :: "field \<Rightarrow> js_error + jsstring" where
  "getDisplayText f =
     (let text0 = f_text f
      in if text0 = [] then Inr [NBSP]
         else
           (let text1 = (if int (length text0) > f_maxDisplayLength f
                         then take (nat (f_maxDisplayLength f - 2)) text0 @ [ELLIPSIS]
                         else text0);
                text2 = map (\<lambda>c. if isWhiteSpace c then NBSP else c) text1
            in case f_sourceBlock f of
                 None \<Rightarrow> Inl TypeError
               | Some b \<Rightarrow> Inr (if sb_RTL b then text2 @ [RLM] else text2)))"

text \<open>
  \<open>Blockly.Field.prototype.setText\<close>; the argument \<open>None\<close> is \<open>null\<close>.
\<close>

definition Field_setText :: "jsstring option \<Rightarrow> fstate \<Rightarrow> fstate" where
  "Field_setText newText st =
     (case newText of
        None \<Rightarrow> st
      | Some t \<Rightarrow>
          if t = f_text (fs_field st) then st
          else
            (let f' = (fs_field st)\<lparr>f_text := t, f_size_width := 0\<rparr>
             in case f_sourceBlock f' of
                  None \<Rightarrow> st\<lparr>fs_field := f'\<rparr>
                | Some b \<Rightarrow>
                    if sb_rendered b
                    then st\<lparr>fs_field := f',
                            fs_trace := fs_trace st @ [BlockRender (sb_id b), BumpNeighbours (sb_id b)]\<rparr>
                    else st\<lparr>fs_field := f'\<rparr>))"

text \<open>\<open>Blockly.FieldTextInput.prototype.setText\<close>: fires a change event, then the above.\<close>

definition FieldTextInput_setText :: "jsstring option \<Rightarrow> fstate \<Rightarrow> fstate" where
  "FieldTextInput_setText newText st =
     (case newText of
        None \<Rightarrow> st
      | Some t \<Rightarrow>
          if t = f_text (fs_field st) then st
          else
            (let st1 = (case f_sourceBlock (fs_field st) of
                          None \<Rightarrow> st
                        | Some b \<Rightarrow>
                            if fs_eventsEnabled st
                            then st\<lparr>fs_trace := fs_trace st @
                                   [FireChange (sb_id b) (f_name (fs_field st)) (f_text (fs_field st)) t]\<rparr>
                            else st)
             in Field_setText (Some t) st1))"

text \<open>
  \<open>Blockly.Field.prototype.setValue\<close>, run on a text input: \<open>getValue\<close> is the text and
  \<open>this.setText\<close> is the text input's override.
\<close>

definition Field_setValue :: "jsstring option \<Rightarrow> fstate \<Rightarrow> fstate" where
  "Field_setValue newValue st =
     (case newValue of
        None \<Rightarrow> st
      | Some v \<Rightarrow>
          (let oldValue = f_text (fs_field st)
           in if oldValue = v then st
              else
                (let st1 = (case f_sourceBlock (fs_field st) of
                              None \<Rightarrow> st
                            | Some b \<Rightarrow>
                                if fs_eventsEnabled st
                                then st\<lparr>fs_trace := fs_trace st @
                                       [FireChange (sb_id b) (f_name (fs_field st)) oldValue v]\<rparr>
                                else st)
                 in FieldTextInput_setText (Some v) st1)))"

definition FieldTextInput_setValue :: "jsstring option \<Rightarrow> fstate \<Rightarrow> fstate" where
  "FieldTextInput_setValue newValue st =
     (case newValue of
        None \<Rightarrow> st
      | Some v \<Rightarrow>
          (let v' = (case f_sourceBlock (fs_field st) of
                       None \<Rightarrow> v
                     | Some b \<Rightarrow>
                         (case callValidator (fs_field st) v of
                            None \<Rightarrow> v
                          | Some validated \<Rightarrow> validated))
           in Field_setValue (Some v') st))"

text \<open>
  The closure \<open>widgetDispose_\<close> returns, up to the field's re-render: the editor's
  \<open>value\<close> and \<open>defaultValue\<close> are its inputs. What follows in the source (unbinding
  the editor's listeners, the disposal animation) touches the editor only. Without a
  source block the closure fails at \<open>thisField.sourceBlock.rendered\<close>, after the text
  has been written.
\<close>

definition widgetDispose :: "jsstring \<Rightarrow> jsstring \<Rightarrow> fstate \<Rightarrow> js_error + fstate" where
  "widgetDispose htmlValue htmlDefaultValue st =
     (case f_sourceBlock (fs_field st) of
        None \<Rightarrow> Inl TypeError
      | Some b \<Rightarrow>
          (let text1 = callValidator (fs_field st) htmlValue;
               st1 = (case text1 of
                        None \<Rightarrow> st
                      | Some t \<Rightarrow>
                          if f_onFinishEditing (fs_field st)
                          then st\<lparr>fs_trace := fs_trace st @ [FinishEditing t]\<rparr>
                          else st);
               t = (case text1 of None \<Rightarrow> htmlDefaultValue | Some t \<Rightarrow> t);
               st2 = FieldTextInput_setText (Some t) st1
           in Inr (if sb_rendered b then st2\<lparr>fs_trace := fs_trace st2 @ [FieldRender]\<rparr> else st2)))"

text \<open>
  \<open>Blockly.FieldTextInput.numberValidator\<close>. The two \<open>replace\<close> calls rewrite every
  match: \<open>/O/ig\<close> matches the code units of \<open>O\<close> and \<open>o\<close>, \<open>/,/g\<close> the comma.
  \<open>text || 0\<close> is \<open>0\<close> for the empty string, which \<open>parseFloat\<close> reads as \<open>"0"\<close>.
  The deprecation warning written to the console is left out.
\<close>

definition numberValidator ::
  "(bool \<Rightarrow> nat \<Rightarrow> int \<Rightarrow> jsstring) \<Rightarrow> jsstring option \<Rightarrow> jsstring option" where
  "numberValidator dtoa text =
     (case text of
        None \<Rightarrow> None
      | Some t0 \<Rightarrow>
          (let t1 = map (\<lambda>c. if c = 0x4F \<or> c = 0x6F then 0x30 else c) t0;
               t2 = filter (\<lambda>c. c \<noteq> 0x2C) t1;
               n = parseFloat (if t2 = [] then js ''0'' else t2)
           in if isNaN n then None else Some (Number_toString dtoa n)))"

section \<open>Connections and the connection database\<close>

text \<open>
  Coordinates are JavaScript numbers. They are modelled as real numbers: the sums and
  differences below are exact, where the doubles of the source round.
\<close>

datatype conn_type = INPUT_VALUE | OUTPUT_VALUE | NEXT_STATEMENT | PREVIOUS_STATEMENT

record connection =
  c_x :: real
  c_y :: real
  c_hidden :: bool
  c_inDB :: bool
  c_type :: conn_type
  c_sourceBlock :: nat

text \<open>
  A workspace: the connection objects, by identity, and one database per connection
  type, each a sequence of connection identities. \<open>this.db\<close> of a connection is the
  database of its own type, \<open>this.dbOpposite\<close> the one of the opposite type.
\<close>

record workspace =
  conns :: "nat \<Rightarrow> connection"
  dbs :: "conn_type \<Rightarrow> nat list"


definition db_of :: "workspace \<Rightarrow> nat \<Rightarrow> nat list" where
  "db_of ws i = dbs ws (c_type (conns ws i))"


text \<open>
  Modelled from the spec: the connection database (\<open>this.db.addConnection\<close>,
  \<open>this.db.removeConnection\<close>, \<open>this.dbOpposite.searchForClosest\<close>), whose code is not
  among the sources. The specification orders a database by x, then by y; inserts and
  removes a connection keeping that order; treats a double insert and the removal of an
  absent connection as a programming error; and has \<open>inDB\<close> say whether the connection
  is registered. It does not say where a new entry goes among entries that share its
  position; here it goes behind them.
\<close>

definition keyLE :: "connection \<Rightarrow> connection \<Rightarrow> bool" where
  "keyLE a b = (c_x a < c_x b \<or> (c_x a = c_x b \<and> c_y a \<le> c_y b))"

fun findPosition :: "(nat \<Rightarrow> connection) \<Rightarrow> connection \<Rightarrow> nat list \<Rightarrow> nat" where
  "findPosition cs p [] = 0"
| "findPosition cs p (j # rest) = (if keyLE (cs j) p then Suc (findPosition cs p rest) else 0)"

definition spliceIn :: "nat \<Rightarrow> nat \<Rightarrow> nat list \<Rightarrow> nat list" where
  "spliceIn position i db = take position db @ i # drop position db"

definition addConnection :: "nat \<Rightarrow> workspace \<Rightarrow> js_error + workspace" where
  "addConnection i ws =
     (let db = db_of ws i
      in if i \<in> set db then Inl ProgrammingError
         else
           (let position = findPosition (conns ws) (conns ws i) db
            in Inr (ws\<lparr>conns := (conns ws)(i := (conns ws i)\<lparr>c_inDB := True\<rparr>),
                       dbs := (dbs ws)(c_type (conns ws i) := spliceIn position i db)\<rparr>)))"

definition removeConnection :: "nat \<Rightarrow> workspace \<Rightarrow> js_error + workspace" where
  "removeConnection i ws =
     (let db = db_of ws i
      in if i \<notin> set db then Inl ProgrammingError
         else Inr (ws\<lparr>conns := (conns ws)(i := (conns ws i)\<lparr>c_inDB := False\<rparr>),
                     dbs := (dbs ws)(c_type (conns ws i) := remove1 i db)\<rparr>))"

text \<open>\<open>Blockly.RenderedConnection.prototype.moveTo\<close>, \<open>moveBy\<close> and \<open>setHidden\<close>.\<close>

definition moveTo :: "nat \<Rightarrow> real \<Rightarrow> real \<Rightarrow> workspace \<Rightarrow> js_error + workspace" where
  "moveTo i x y ws =
     (case (if c_inDB (conns ws i) then removeConnection i ws else Inr ws) of
        Inl e \<Rightarrow> Inl e
      | Inr ws1 \<Rightarrow>
          (let ws2 = ws1\<lparr>conns := (conns ws1)(i := (conns ws1 i)\<lparr>c_x := x, c_y := y\<rparr>)\<rparr>
           in if \<not> c_hidden (conns ws2 i) then addConnection i ws2 else Inr ws2))"

definition moveBy :: "nat \<Rightarrow> real \<Rightarrow> real \<Rightarrow> workspace \<Rightarrow> js_error + workspace" where
  "moveBy i dx dy ws = moveTo i (c_x (conns ws i) + dx) (c_y (conns ws i) + dy) ws"

definition setHidden :: "nat \<Rightarrow> bool \<Rightarrow> workspace \<Rightarrow> js_error + workspace" where
  "setHidden i hidden ws =
     (let ws1 = ws\<lparr>conns := (conns ws)(i := (conns ws i)\<lparr>c_hidden := hidden\<rparr>)\<rparr>
      in if hidden \<and> c_inDB (conns ws1 i) then removeConnection i ws1
         else if \<not> hidden \<and> \<not> c_inDB (conns ws1 i) then addConnection i ws1
         else Inr ws1)"

text \<open>A sequence of \<open>moveTo\<close> and \<open>setHidden\<close> calls on one connection; the first error ends it.\<close>

datatype conn_op = MoveTo real real | SetHidden bool

fun runOps :: "nat \<Rightarrow> conn_op list \<Rightarrow> workspace \<Rightarrow> js_error + workspace" where
  "runOps i [] ws = Inr ws"
| "runOps i (MoveTo x y # ops) ws =
     (case moveTo i x y ws of Inl e \<Rightarrow> Inl e | Inr ws1 \<Rightarrow> runOps i ops ws1)"
| "runOps i (SetHidden h # ops) ws =
     (case setHidden i h ws of Inl e \<Rightarrow> Inl e | Inr ws1 \<Rightarrow> runOps i ops ws1)"

text \<open>
  The state in which the source's guards on \<open>inDB\<close> keep the database from failing:
  the flag of the connection says whether its database lists it, and lists it once.
\<close>

definition registered_ok :: "workspace \<Rightarrow> nat \<Rightarrow> bool" where
  "registered_ok ws i = ((c_inDB (conns ws i) = (i \<in> set (db_of ws i))) \<and> distinct (db_of ws i))"

definition db_sorted :: "(nat \<Rightarrow> connection) \<Rightarrow> nat list \<Rightarrow> bool" where
  "db_sorted cs db = sorted_wrt (\<lambda>a b. keyLE (cs a) (cs b)) db"








section \<open>Bumping\<close>





section \<open>Unhiding a subtree\<close>

text \<open>
  The blocks below a connection form a tree: a connection with its identity and the
  block attached to it (\<open>targetBlock()\<close>), a block with its identity, \<open>isCollapsed()\<close>,
  its output, previous and next connection and the connections of its inputs.
  The connections' types, hidden flags and database entries are in the workspace.
\<close>

datatype blk = Blk nat bool "cn option" "cn option" "cn option" "cn list"
  and cn = Cn nat "blk option"

fun optList :: "'a option \<Rightarrow> 'a list" where
  "optList None = []"
| "optList (Some x) = [x]"





text \<open>
  Modelled from the spec: \<open>block.getConnections(true)\<close>, a method of the block that is
  not among the sources; a block owns an optional output, previous and next connection
  and its input slots.
\<close>

fun getConnections :: "blk \<Rightarrow> cn list" where
  "getConnections (Blk b collapsed out prev nxt inputs) =
     optList out @ optList prev @ optList nxt @ inputs"

text \<open>The list \<open>connections\<close> that \<open>unhideAll\<close> builds for the attached block.\<close>

fun shownConnections :: "blk \<Rightarrow> cn list" where
  "shownConnections (Blk b collapsed out prev nxt inputs) =
     (if collapsed then optList out @ optList nxt @ optList prev
      else getConnections (Blk b collapsed out prev nxt inputs))"


section \<open>Reading the connection code's results\<close>

text \<open>
  What an operation on connection \<open>i\<close> leaves alone: every other connection, the type
  and source block of \<open>i\<close>, the databases of the other types, and in the database of the
  type of \<open>i\<close> every entry but \<open>i\<close>.
\<close>

definition same_but :: "nat \<Rightarrow> workspace \<Rightarrow> workspace \<Rightarrow> bool" where
  "same_but i ws ws' =
     ((\<forall>j. j \<noteq> i \<longrightarrow> conns ws' j = conns ws j) \<and>
      c_type (conns ws' i) = c_type (conns ws i) \<and>
      c_sourceBlock (conns ws' i) = c_sourceBlock (conns ws i) \<and>
      (\<forall>t. set (dbs ws' t) - {i} = set (dbs ws t) - {i}) \<and>
      (\<forall>t. t \<noteq> c_type (conns ws i) \<longrightarrow> dbs ws' t = dbs ws t) \<and>
      (\<forall>t. distinct (dbs ws t) \<longrightarrow> distinct (dbs ws' t)))"



text \<open>
  \<open>unhideAll\<close> goes on into the attached block for these two connection types.
  \<open>visitedConns\<close> lists the connections it calls \<open>setHidden(false)\<close> on, in call
  order, and \<open>visitedBlocks\<close> the blocks it enters, parents first; a block it enters is
  a leaf when it enters no block below it. \<open>connIds\<close> lists every connection of the
  tree, those of collapsed blocks' inputs included.
\<close>

definition descends :: "conn_type \<Rightarrow> bool" where
  "descends t = (t = INPUT_VALUE \<or> t = NEXT_STATEMENT)"


function visitedConns :: "(nat \<Rightarrow> conn_type) \<Rightarrow> cn \<Rightarrow> nat list"
  and visitedConns_each :: "(nat \<Rightarrow> conn_type) \<Rightarrow> cn list \<Rightarrow> nat list" where
  "visitedConns ty (Cn i tgt) =
     i # (if descends (ty i)
          then (case tgt of None \<Rightarrow> [] | Some block \<Rightarrow> visitedConns_each ty (shownConnections block))
          else [])"
| "visitedConns_each ty [] = []"
| "visitedConns_each ty (c # cs) = visitedConns ty c @ visitedConns_each ty cs"
  by pat_completeness auto
termination
proof -
  have o: "size_list size (optList x) \<le> size_option size x" for x :: "cn option"
    by (cases x) auto
  have s: "size_list size (shownConnections b) \<le> Suc (size b)" for b
  proof (cases b)
    case (Blk b collapsed out prev nxt inputs)
    show ?thesis using o[of out] o[of prev] o[of nxt] by (simp add: Blk)
  qed
  show ?thesis
    by (relation "measure (\<lambda>x. case x of Inl (ty, c) \<Rightarrow> size c | Inr (ty, cs) \<Rightarrow> size_list size cs)")
      (auto simp: less_Suc_eq_le s)
qed

function visitedBlocks :: "(nat \<Rightarrow> conn_type) \<Rightarrow> cn \<Rightarrow> blk list"
  and visitedBlocks_each :: "(nat \<Rightarrow> conn_type) \<Rightarrow> cn list \<Rightarrow> blk list" where
  "visitedBlocks ty (Cn i tgt) =
     (if descends (ty i)
      then (case tgt of None \<Rightarrow> [] | Some block \<Rightarrow> block # visitedBlocks_each ty (shownConnections block))
      else [])"
| "visitedBlocks_each ty [] = []"
| "visitedBlocks_each ty (c # cs) = visitedBlocks ty c @ visitedBlocks_each ty cs"
  by pat_completeness auto
termination
proof -
  have o: "size_list size (optList x) \<le> size_option size x" for x :: "cn option"
    by (cases x) auto
  have s: "size_list size (shownConnections b) \<le> Suc (size b)" for b
  proof (cases b)
    case (Blk b collapsed out prev nxt inputs)
    show ?thesis using o[of out] o[of prev] o[of nxt] by (simp add: Blk)
  qed
  show ?thesis
    by (relation "measure (\<lambda>x. case x of Inl (ty, c) \<Rightarrow> size c | Inr (ty, cs) \<Rightarrow> size_list size cs)")
      (auto simp: less_Suc_eq_le s)
qed







function connIds :: "cn \<Rightarrow> nat list"
  and connIds_each :: "cn list \<Rightarrow> nat list" where
  "connIds (Cn i tgt) =
     i # (case tgt of None \<Rightarrow> [] | Some block \<Rightarrow> connIds_each (getConnections block))"
| "connIds_each [] = []"
| "connIds_each (c # cs) = connIds c @ connIds_each cs"
  by pat_completeness auto
termination
proof -
  have o: "size_list size (optList x) \<le> size_option size x" for x :: "cn option"
    by (cases x) auto
  have s: "size_list size (getConnections b) \<le> Suc (size b)" for b
  proof (cases b)
    case (Blk b collapsed out prev nxt inputs)
    show ?thesis using o[of out] o[of prev] o[of nxt] by (simp add: Blk)
  qed
  show ?thesis
    by (relation "measure (\<lambda>x. case x of Inl c \<Rightarrow> size c | Inr cs \<Rightarrow> size_list size cs)")
      (auto simp: less_Suc_eq_le s)
qed


section \<open>Scenario fixtures\<close>

text \<open>
  The scenario of the specification: a field whose class validator is
  \<open>numberValidator\<close> and whose user validator doubles a number, on a rendered
  left-to-right block; and a plain field with the default class validator and no user
  validator. \<open>noDtoa\<close> is a printing of non-integers for closed examples, none of which
  reaches it.
\<close>

definition doublingValidator :: "(bool \<Rightarrow> nat \<Rightarrow> int \<Rightarrow> jsstring) \<Rightarrow> jsstring \<Rightarrow> vresult" where
  "doublingValidator dtoa t =
     (case parseFloat t of
        Dec neg m e \<Rightarrow> VString (Number_toString dtoa (Dec neg (2 * m) e))
      | n \<Rightarrow> VString (Number_toString dtoa n))"

definition numericField :: "(bool \<Rightarrow> nat \<Rightarrow> int \<Rightarrow> jsstring) \<Rightarrow> jsstring \<Rightarrow> field" where
  "numericField dtoa t =
     \<lparr>f_name = Some (js ''NUM''), f_text = t,
      f_sourceBlock = Some \<lparr>sb_id = 1, sb_rendered = True, sb_RTL = False\<rparr>,
      f_validator = Some (doublingValidator dtoa),
      f_classValidator =
        (\<lambda>t. case numberValidator dtoa (Some t) of None \<Rightarrow> VNull | Some s \<Rightarrow> VString s),
      f_maxDisplayLength = 10, f_size_width = 0, f_onFinishEditing = False\<rparr>"

definition plainField :: "jsstring \<Rightarrow> bool \<Rightarrow> int \<Rightarrow> field" where
  "plainField t rtl m =
     \<lparr>f_name = None, f_text = t,
      f_sourceBlock = Some \<lparr>sb_id = 2, sb_rendered = False, sb_RTL = rtl\<rparr>,
      f_validator = None, f_classValidator = Field_classValidator,
      f_maxDisplayLength = m, f_size_width = 0, f_onFinishEditing = False\<rparr>"

definition noDtoa :: "bool \<Rightarrow> nat \<Rightarrow> int \<Rightarrow> jsstring" where
  "noDtoa neg m e = []"

text \<open>Reading a result: the change events of a trace, and the text a commit leaves.\<close>

definition isFireChange :: "effect \<Rightarrow> bool" where
  "isFireChange e = (case e of FireChange _ _ _ _ \<Rightarrow> True | _ \<Rightarrow> False)"

definition committedText :: "js_error + fstate \<Rightarrow> jsstring option" where
  "committedText r = (case r of Inl e \<Rightarrow> None | Inr st \<Rightarrow> Some (f_text (fs_field st)))"



text \<open>
  Workspaces for closed examples: \<open>freshWs\<close>, where no connection has been placed yet
  (not hidden, not registered); \<open>hiddenWs\<close>, where every connection is hidden;
  \<open>twoWs\<close>, with the input connections 1 at (0, 0) and 2 at (10, 5) registered;
  \<open>scenarioWs\<close>, the specification's search scenario: input connections 1, 2, 3 at
  x = 0, 10, 100 and the output connection 0 at x = 5.
\<close>

definition conn0 :: connection where
  "conn0 = \<lparr>c_x = 0, c_y = 0, c_hidden = False, c_inDB = False, c_type = INPUT_VALUE, c_sourceBlock = 0\<rparr>"

definition freshWs :: workspace where
  "freshWs = \<lparr>conns = (\<lambda>j. conn0), dbs = (\<lambda>t. [])\<rparr>"

definition hiddenWs :: workspace where
  "hiddenWs = \<lparr>conns = (\<lambda>j. conn0\<lparr>c_hidden := True\<rparr>), dbs = (\<lambda>t. [])\<rparr>"

definition twoWs :: workspace where
  "twoWs =
     \<lparr>conns = (\<lambda>j. conn0\<lparr>c_x := (if j = 2 then 10 else 0), c_y := (if j = 2 then 5 else 0),
                          c_inDB := (j = 1 \<or> j = 2)\<rparr>),
      dbs = (\<lambda>t. if t = INPUT_VALUE then [1, 2] else [])\<rparr>"












section \<open>The validation pipeline\<close>

lemma callValidator_stage:
  "callValidator f t =
     (case stage (f_classValidator f t) t of
        None \<Rightarrow> None
      | Some t1 \<Rightarrow> (case f_validator f of None \<Rightarrow> Some t1 | Some uv \<Rightarrow> stage (uv t1) t1))"
  by (simp add: callValidator_def stage_def Let_def split: vresult.splits option.splits)

subsection \<open>Evaluating the scenario\<close>

lemmas js_eval = js_def parseFloat_def isWhiteSpace_def isDigit_def Let_def
  digitsValue_def exponentPart_def isNaN_def Number_toString_def integerValue_def
  digits_of_nat.simps

lemma numberValidator_21: "numberValidator dtoa (Some (js ''21'')) = Some (js ''21'')"
  by (simp add: numberValidator_def js_eval)

lemma numberValidator_abc: "numberValidator dtoa (Some (js ''abc'')) = None"
  by (simp add: numberValidator_def js_eval)



lemma numberValidator_mixed:
  "numberValidator dtoa (Some (js '' -1,2O0.50e1x'')) = Some (js ''-12005'')"
  by (simp add: numberValidator_def js_eval)

lemma numericField_sel:
  "f_classValidator (numericField dtoa d) =
     (\<lambda>t. case numberValidator dtoa (Some t) of None \<Rightarrow> VNull | Some s \<Rightarrow> VString s)"
  "f_validator (numericField dtoa d) = Some (doublingValidator dtoa)"
  "f_text (numericField dtoa d) = d"
  "f_sourceBlock (numericField dtoa d) = Some \<lparr>sb_id = 1, sb_rendered = True, sb_RTL = False\<rparr>"
  "f_name (numericField dtoa d) = Some (js ''NUM'')"
  by (simp_all add: numericField_def)

lemma doubling_21: "doublingValidator dtoa (js ''21'') = VString (js ''42'')"
  by (simp add: doublingValidator_def js_eval)

lemma callValidator_numeric_21:
  "callValidator (numericField dtoa d) (js ''21'') = Some (js ''42'')"
  by (simp add: callValidator_stage numericField_sel numberValidator_21 stage_def doubling_21)

lemma callValidator_numeric_abc:
  "callValidator (numericField dtoa d) (js ''abc'') = None"
  by (simp add: callValidator_stage numericField_sel numberValidator_abc stage_def)

subsection \<open>Claims about the pipeline\<close>

text \<open>
  Claim C5. \<open>callValidator\<close> runs the class validator first and answers \<open>null\<close> at once
  when it answers \<open>null\<close>. Otherwise the text after the class stage (rewritten, or as
  proposed when the class validator answers \<open>undefined\<close>) is the result when no user
  validator is set, and is handed to the user validator when one is set: \<open>null\<close> from
  it gives \<open>null\<close>, \<open>undefined\<close> keeps the text, a string replaces it.
\<close>

theorem callValidator_two_stage:
  "(f_classValidator f t = VNull \<longrightarrow> callValidator f t = None) \<and>
   (\<forall>t1. stage (f_classValidator f t) t = Some t1 \<longrightarrow>
      (f_validator f = None \<longrightarrow> callValidator f t = Some t1) \<and>
      (\<forall>uv. f_validator f = Some uv \<longrightarrow> callValidator f t = stage (uv t1) t1)) \<and>
   stage VNull t = None \<and> stage VUndefined t = Some t \<and> (\<forall>s. stage (VString s) t = Some s)"
  by (simp add: callValidator_stage) (simp add: stage_def)

theorem callValidator_two_stage_witness:
  "f_classValidator (numericField noDtoa (js ''7'')) (js ''abc'') = VNull \<and>
   callValidator (numericField noDtoa (js ''7'')) (js ''abc'') = None \<and>
   stage (f_classValidator (numericField noDtoa (js ''7'')) (js ''21'')) (js ''21'') = Some (js ''21'') \<and>
   f_validator (numericField noDtoa (js ''7'')) = Some (doublingValidator noDtoa) \<and>
   callValidator (numericField noDtoa (js ''7'')) (js ''21'') = Some (js ''42'') \<and>
   f_validator (plainField (js ''7'') False 10) = None \<and>
   callValidator (plainField (js ''7'') False 10) (js ''21'') = Some (js ''21'')"
proof -
  let ?F = "numericField noDtoa (js ''7'')"
  let ?P = "plainField (js ''7'') False 10"
  have h1: "f_classValidator ?F (js ''abc'') = VNull"
    by (simp add: numericField_sel numberValidator_abc)
  have h2: "stage (f_classValidator ?F (js ''21'')) (js ''21'') = Some (js ''21'')"
    by (simp add: numericField_sel numberValidator_21 stage_def)
  have h3: "f_validator ?F = Some (doublingValidator noDtoa)"
    by (simp add: numericField_sel)
  have h4: "f_validator ?P = None"
    "stage (f_classValidator ?P (js ''21'')) (js ''21'') = Some (js ''21'')"
    by (simp_all add: plainField_def Field_classValidator_def stage_def)
  have c1: "callValidator ?F (js ''abc'') = None"
    using callValidator_two_stage[of ?F "js ''abc''"] h1 by blast
  have c2: "callValidator ?F (js ''21'') = stage (doublingValidator noDtoa (js ''21'')) (js ''21'')"
    using callValidator_two_stage[of ?F "js ''21''"] h2 h3 by blast
  have c3: "callValidator ?P (js ''21'') = Some (js ''21'')"
    using callValidator_two_stage[of ?P "js ''21''"] h4 by blast
  show ?thesis using h1 h2 h3 h4 c1 c2 c3 by (simp add: doubling_21 stage_def)
qed

text \<open>
  Claim C6. Committing the editor of a text input that sits on a block writes the
  validated text when \<open>callValidator\<close> accepts the editor's value and the editor's
  pre-edit default when it answers \<open>null\<close>; a change event is fired exactly when
  events are enabled and the text written differs from the text the field held. With the
  numeric class validator and the doubling user validator, committing \<open>21\<close> leaves
  \<open>42\<close> and committing \<open>abc\<close> leaves the default.
\<close>

theorem widgetDispose_commit:
  "(f_sourceBlock (fs_field st) = Some b \<longrightarrow>
      (\<exists>st'. widgetDispose hv dv st = Inr st' \<and>
         f_text (fs_field st') = (case callValidator (fs_field st) hv of None \<Rightarrow> dv | Some t \<Rightarrow> t) \<and>
         filter isFireChange (fs_trace st') =
           filter isFireChange (fs_trace st) @
           (if fs_eventsEnabled st \<and> f_text (fs_field st') \<noteq> f_text (fs_field st)
            then [FireChange (sb_id b) (f_name (fs_field st)) (f_text (fs_field st))
                    (f_text (fs_field st'))]
            else []))) \<and>
   committedText (widgetDispose (js ''21'') d
      \<lparr>fs_field = numericField dtoa cur, fs_eventsEnabled = en, fs_trace = tr\<rparr>) = Some (js ''42'') \<and>
   committedText (widgetDispose (js ''abc'') d
      \<lparr>fs_field = numericField dtoa cur, fs_eventsEnabled = en, fs_trace = tr\<rparr>) = Some d"
proof (intro conjI impI)
  assume "f_sourceBlock (fs_field st) = Some b"
  then show "\<exists>st'. widgetDispose hv dv st = Inr st' \<and>
         f_text (fs_field st') = (case callValidator (fs_field st) hv of None \<Rightarrow> dv | Some t \<Rightarrow> t) \<and>
         filter isFireChange (fs_trace st') =
           filter isFireChange (fs_trace st) @
           (if fs_eventsEnabled st \<and> f_text (fs_field st') \<noteq> f_text (fs_field st)
            then [FireChange (sb_id b) (f_name (fs_field st)) (f_text (fs_field st))
                    (f_text (fs_field st'))]
            else [])"
    by (auto simp: widgetDispose_def FieldTextInput_setText_def Field_setText_def Let_def
        isFireChange_def split: option.splits)
next
  show "committedText (widgetDispose (js ''21'') d
      \<lparr>fs_field = numericField dtoa cur, fs_eventsEnabled = en, fs_trace = tr\<rparr>) = Some (js ''42'')"
    by (simp add: widgetDispose_def committedText_def numericField_sel callValidator_numeric_21
        FieldTextInput_setText_def Field_setText_def Let_def)
next
  show "committedText (widgetDispose (js ''abc'') d
      \<lparr>fs_field = numericField dtoa cur, fs_eventsEnabled = en, fs_trace = tr\<rparr>) = Some d"
    by (simp add: widgetDispose_def committedText_def numericField_sel callValidator_numeric_abc
        FieldTextInput_setText_def Field_setText_def Let_def)
qed

theorem widgetDispose_commit_witness:
  "f_sourceBlock (numericField noDtoa (js ''abc'')) =
     Some \<lparr>sb_id = 1, sb_rendered = True, sb_RTL = False\<rparr> \<and>
   widgetDispose (js ''abc'') (js ''7'')
      \<lparr>fs_field = numericField noDtoa (js ''abc''), fs_eventsEnabled = True, fs_trace = []\<rparr> =
     Inr \<lparr>fs_field = (numericField noDtoa (js ''abc''))\<lparr>f_text := js ''7'', f_size_width := 0\<rparr>,
          fs_eventsEnabled = True,
          fs_trace = [FireChange 1 (Some (js ''NUM'')) (js ''abc'') (js ''7''),
                      BlockRender 1, BumpNeighbours 1, FieldRender]\<rparr> \<and>
   committedText (widgetDispose (js ''21'') (js ''7'')
      \<lparr>fs_field = numericField noDtoa (js ''2''), fs_eventsEnabled = True, fs_trace = []\<rparr>) =
     Some (js ''42'')"
proof -
  let ?st = "\<lparr>fs_field = numericField noDtoa (js ''abc''), fs_eventsEnabled = True, fs_trace = []\<rparr>"
  have h1: "f_sourceBlock (fs_field ?st) = Some \<lparr>sb_id = 1, sb_rendered = True, sb_RTL = False\<rparr>"
    by (simp add: numericField_sel)
  have ne: "js ''7'' \<noteq> js ''abc''" by (simp add: js_def)
  have w: "widgetDispose (js ''abc'') (js ''7'') ?st =
     Inr \<lparr>fs_field = (numericField noDtoa (js ''abc''))\<lparr>f_text := js ''7'', f_size_width := 0\<rparr>,
          fs_eventsEnabled = True,
          fs_trace = [FireChange 1 (Some (js ''NUM'')) (js ''abc'') (js ''7''),
                      BlockRender 1, BumpNeighbours 1, FieldRender]\<rparr>"
    using ne
    by (simp add: widgetDispose_def numericField_sel callValidator_numeric_abc
        FieldTextInput_setText_def Field_setText_def Let_def)
  show ?thesis
    using widgetDispose_commit[of ?st "\<lparr>sb_id = 1, sb_rendered = True, sb_RTL = False\<rparr>"
        "js ''abc''" "js ''7''" "js ''7''" noDtoa "js ''2''" True "[]"] h1 w
    by simp
qed

text \<open>
  Claim C8. On a text input that sits on a block, \<open>setValue(v)\<close> with a value \<open>v\<close> that
  the validation pipeline rejects still stores \<open>v\<close> as the field's text. If \<open>v\<close> differs
  from the text held, the change is announced when events are enabled (by
  \<open>Field.setValue\<close> and again by the text input's \<open>setText\<close>) and the block is
  rendered and bumped when it is rendered; if \<open>v\<close> is the text held, nothing happens.
\<close>

theorem setValue_rejected_stores_raw:
  assumes "f_sourceBlock (fs_field st) = Some b"
    and "callValidator (fs_field st) v = None"
  shows "f_text (fs_field (FieldTextInput_setValue (Some v) st)) = v \<and>
         fs_trace (FieldTextInput_setValue (Some v) st) =
           fs_trace st @
           (if v = f_text (fs_field st) then []
            else (if fs_eventsEnabled st
                  then [FireChange (sb_id b) (f_name (fs_field st)) (f_text (fs_field st)) v,
                        FireChange (sb_id b) (f_name (fs_field st)) (f_text (fs_field st)) v]
                  else []) @
                 (if sb_rendered b then [BlockRender (sb_id b), BumpNeighbours (sb_id b)] else []))"
  using assms
  by (simp add: FieldTextInput_setValue_def Field_setValue_def FieldTextInput_setText_def
      Field_setText_def Let_def)

theorem setValue_rejected_stores_raw_witness:
  "f_sourceBlock (numericField noDtoa (js ''7'')) =
     Some \<lparr>sb_id = 1, sb_rendered = True, sb_RTL = False\<rparr> \<and>
   callValidator (numericField noDtoa (js ''7'')) (js ''abc'') = None \<and>
   f_text (fs_field (FieldTextInput_setValue (Some (js ''abc''))
      \<lparr>fs_field = numericField noDtoa (js ''7''), fs_eventsEnabled = True, fs_trace = []\<rparr>)) =
     js ''abc'' \<and>
   fs_trace (FieldTextInput_setValue (Some (js ''abc''))
      \<lparr>fs_field = numericField noDtoa (js ''7''), fs_eventsEnabled = True, fs_trace = []\<rparr>) =
     [FireChange 1 (Some (js ''NUM'')) (js ''7'') (js ''abc''),
      FireChange 1 (Some (js ''NUM'')) (js ''7'') (js ''abc''),
      BlockRender 1, BumpNeighbours 1]"
proof -
  let ?st = "\<lparr>fs_field = numericField noDtoa (js ''7''), fs_eventsEnabled = True, fs_trace = []\<rparr>"
  have h1: "f_sourceBlock (fs_field ?st) = Some \<lparr>sb_id = 1, sb_rendered = True, sb_RTL = False\<rparr>"
    by (simp add: numericField_sel)
  have h2: "callValidator (fs_field ?st) (js ''abc'') = None"
    by (simp add: callValidator_numeric_abc)
  have ne: "js ''abc'' \<noteq> js ''7''" by (simp add: js_def)
  show ?thesis
    using setValue_rejected_stores_raw[OF h1 h2] h1 h2 ne
    by (simp add: numericField_def)
qed

subsection \<open>The displayed text\<close>

text \<open>
  Claim C9, as amended. For a field that sits on a block: an empty text is displayed
  as one non-breaking space; a non-empty text no longer than \<open>maxDisplayLength\<close> is
  displayed whole; a longer one is cut to its first \<open>maxDisplayLength - 2\<close> characters
  (none if that is negative) and an ellipsis; every whitespace character displayed is a
  non-breaking space; and on a right-to-left block a right-to-left mark follows. On a
  left-to-right block with \<open>maxDisplayLength\<close> at least 2 the cut text has
  \<open>maxDisplayLength - 1\<close> characters.
\<close>

theorem getDisplayText_spec:
  "f_sourceBlock f = Some b \<Longrightarrow>
   (f_text f = [] \<longrightarrow> getDisplayText f = Inr [NBSP]) \<and>
   (f_text f \<noteq> [] \<and> int (length (f_text f)) \<le> f_maxDisplayLength f \<longrightarrow>
      getDisplayText f =
        Inr (map (\<lambda>c. if isWhiteSpace c then NBSP else c) (f_text f) @
             (if sb_RTL b then [RLM] else []))) \<and>
   (f_text f \<noteq> [] \<and> int (length (f_text f)) > f_maxDisplayLength f \<longrightarrow>
      getDisplayText f =
        Inr (map (\<lambda>c. if isWhiteSpace c then NBSP else c)
               (take (nat (f_maxDisplayLength f - 2)) (f_text f))
             @ [ELLIPSIS] @ (if sb_RTL b then [RLM] else []))) \<and>
   (int (length (f_text f)) > f_maxDisplayLength f \<and> 2 \<le> f_maxDisplayLength f \<and> \<not> sb_RTL b \<longrightarrow>
      (\<exists>d. getDisplayText f = Inr d \<and> int (length d) = f_maxDisplayLength f - 1))"
  by (auto simp: getDisplayText_def Let_def isWhiteSpace_def ELLIPSIS_def)

theorem getDisplayText_spec_witness:
  "getDisplayText (plainField [] False 4) = Inr [NBSP] \<and>
   getDisplayText (plainField (js ''a b'') False 4) = Inr [0x61, 0xA0, 0x62] \<and>
   getDisplayText (plainField (js ''a bcdef'') False 4) = Inr [0x61, 0xA0, 0x2026] \<and>
   getDisplayText (plainField (js ''a bcdef'') True 4) = Inr [0x61, 0xA0, 0x2026, 0x200F]"
proof -
  let ?b = "\<lambda>rtl. \<lparr>sb_id = 2, sb_rendered = False, sb_RTL = rtl\<rparr>"
  have sb: "\<And>t rtl m. f_sourceBlock (plainField t rtl m) = Some (?b rtl)"
    by (simp add: plainField_def)
  show ?thesis
    using getDisplayText_spec[OF sb, of "[]" False 4]
      getDisplayText_spec[OF sb, of "js ''a b''" False 4]
      getDisplayText_spec[OF sb, of "js ''a bcdef''" False 4]
      getDisplayText_spec[OF sb, of "js ''a bcdef''" True 4]
    by (simp add: plainField_def js_def isWhiteSpace_def NBSP_def ELLIPSIS_def RLM_def)
qed

text \<open>
  The claim as first stated fails on a right-to-left block: the text \<open>abcdef\<close> with
  \<open>maxDisplayLength = 4\<close> is displayed as \<open>ab\<close>, an ellipsis and a right-to-left mark,
  not as the first two characters and an ellipsis.
\<close>

theorem getDisplayText_rtl_counterexample:
  "getDisplayText (plainField (js ''abcdef'') True 4) = Inr [0x61, 0x62, 0x2026, 0x200F] \<and>
   getDisplayText (plainField (js ''abcdef'') True 4) \<noteq>
     Inr (map (\<lambda>c. if isWhiteSpace c then NBSP else c) (take (4 - 2) (js ''abcdef'')) @ [ELLIPSIS])"
  by (simp add: getDisplayText_def plainField_def js_def Let_def isWhiteSpace_def
      ELLIPSIS_def RLM_def NBSP_def)

subsection \<open>The number validator\<close>






lemma dot_not_digit: "\<not> isDigit 0x2E"
  by (simp add: isDigit_def)










section \<open>The connection database\<close>

lemma set_spliceIn: "set (spliceIn p i db) = insert i (set db)"
proof -
  have "set (take p db) \<union> set (drop p db) = set db"
    by (metis append_take_drop_id set_append)
  then show ?thesis by (auto simp: spliceIn_def)
qed

lemma distinct_spliceIn: "distinct db \<Longrightarrow> i \<notin> set db \<Longrightarrow> distinct (spliceIn p i db)"
proof -
  assume d: "distinct db" and n: "i \<notin> set db"
  have "set (take p db) \<inter> set (drop p db) = {}"
    using d by (simp add: set_take_disj_set_drop_if_distinct)
  moreover have "i \<notin> set (take p db)" "i \<notin> set (drop p db)"
    using n by (auto dest: in_set_takeD in_set_dropD)
  ultimately show ?thesis using d by (simp add: spliceIn_def)
qed


lemma addConnection_effect:
  assumes "i \<notin> set (db_of ws i)"
  shows "\<exists>ws'. addConnection i ws = Inr ws' \<and> same_but i ws ws' \<and>
           conns ws' i = (conns ws i)\<lparr>c_inDB := True\<rparr> \<and>
           i \<in> set (db_of ws' i) \<and>
           (distinct (db_of ws i) \<longrightarrow> distinct (db_of ws' i))"
  using assms
  by (simp add: addConnection_def Let_def db_of_def same_but_def set_spliceIn distinct_spliceIn)

lemma removeConnection_effect:
  assumes "i \<in> set (db_of ws i)" "distinct (db_of ws i)"
  shows "\<exists>ws'. removeConnection i ws = Inr ws' \<and> same_but i ws ws' \<and>
           conns ws' i = (conns ws i)\<lparr>c_inDB := False\<rparr> \<and>
           i \<notin> set (db_of ws' i) \<and> distinct (db_of ws' i)"
  using assms
  by (simp add: removeConnection_def Let_def db_of_def same_but_def)

lemma same_but_refl: "same_but i ws ws"
  by (simp add: same_but_def)

lemma same_but_trans: "same_but i a b \<Longrightarrow> same_but i b c \<Longrightarrow> same_but i a c"
  by (simp add: same_but_def)

lemma db_of_same_but: "same_but i ws ws' \<Longrightarrow> set (db_of ws' i) - {i} = set (db_of ws i) - {i}"
  by (simp add: same_but_def db_of_def)

lemma same_but_update:
  "c_type c = c_type (conns ws i) \<Longrightarrow> c_sourceBlock c = c_sourceBlock (conns ws i) \<Longrightarrow>
   same_but i ws (ws\<lparr>conns := (conns ws)(i := c)\<rparr>)"
  by (simp add: same_but_def)

lemma registered_ok_update:
  "registered_ok ws i \<Longrightarrow> c_type c = c_type (conns ws i) \<Longrightarrow> c_inDB c = c_inDB (conns ws i) \<Longrightarrow>
   registered_ok (ws\<lparr>conns := (conns ws)(i := c)\<rparr>) i"
  by (simp add: registered_ok_def db_of_def)

lemma setHidden_effect:
  assumes "registered_ok ws i"
  shows "\<exists>ws'. setHidden i h ws = Inr ws' \<and> registered_ok ws' i \<and> same_but i ws ws' \<and>
           c_hidden (conns ws' i) = h \<and> (i \<in> set (db_of ws' i)) = (\<not> h) \<and>
           c_x (conns ws' i) = c_x (conns ws i) \<and> c_y (conns ws' i) = c_y (conns ws i)"
proof -
  let ?ws1 = "ws\<lparr>conns := (conns ws)(i := (conns ws i)\<lparr>c_hidden := h\<rparr>)\<rparr>"
  have r1: "registered_ok ?ws1 i" using assms by (simp add: registered_ok_update)
  have s1: "same_but i ws ?ws1" by (simp add: same_but_update)
  have f1: "c_hidden (conns ?ws1 i) = h" "c_x (conns ?ws1 i) = c_x (conns ws i)"
    "c_y (conns ?ws1 i) = c_y (conns ws i)" by simp_all
  have m1: "c_inDB (conns ?ws1 i) = (i \<in> set (db_of ?ws1 i))" "distinct (db_of ?ws1 i)"
    using r1 by (simp_all add: registered_ok_def)
  consider (rem) "h" "c_inDB (conns ?ws1 i)" | (add) "\<not> h" "\<not> c_inDB (conns ?ws1 i)"
    | (stay) "h = (\<not> c_inDB (conns ?ws1 i))" by blast
  then show ?thesis
  proof cases
    case rem
    from removeConnection_effect[of i ?ws1] m1 rem
    obtain ws' where w: "removeConnection i ?ws1 = Inr ws'" "same_but i ?ws1 ws'"
      "conns ws' i = (conns ?ws1 i)\<lparr>c_inDB := False\<rparr>" "i \<notin> set (db_of ws' i)" "distinct (db_of ws' i)"
      by auto
    have "setHidden i h ws = Inr ws'" using rem w(1) by (simp add: setHidden_def Let_def)
    moreover have "registered_ok ws' i" using w by (simp add: registered_ok_def)
    moreover have "same_but i ws ws'" using s1 w(2) by (rule same_but_trans)
    ultimately show ?thesis using w rem by simp
  next
    case add
    from addConnection_effect[of i ?ws1] m1 add
    obtain ws' where w: "addConnection i ?ws1 = Inr ws'" "same_but i ?ws1 ws'"
      "conns ws' i = (conns ?ws1 i)\<lparr>c_inDB := True\<rparr>" "i \<in> set (db_of ws' i)" "distinct (db_of ws' i)"
      by auto
    have "setHidden i h ws = Inr ws'" using add w(1) by (simp add: setHidden_def Let_def)
    moreover have "registered_ok ws' i" using w by (simp add: registered_ok_def)
    moreover have "same_but i ws ws'" using s1 w(2) by (rule same_but_trans)
    ultimately show ?thesis using w add by simp
  next
    case stay
    have "setHidden i h ws = Inr ?ws1" using stay by (auto simp: setHidden_def Let_def)
    moreover have "(i \<in> set (db_of ?ws1 i)) = (\<not> h)" using stay m1 by auto
    ultimately show ?thesis using r1 s1 f1 by simp
  qed
qed

lemma moveTo_effect:
  assumes "registered_ok ws i"
  shows "\<exists>ws'. moveTo i x y ws = Inr ws' \<and> registered_ok ws' i \<and> same_but i ws ws' \<and>
           c_hidden (conns ws' i) = c_hidden (conns ws i) \<and>
           (i \<in> set (db_of ws' i)) = (\<not> c_hidden (conns ws i)) \<and>
           c_x (conns ws' i) = x \<and> c_y (conns ws' i) = y"
proof -
  have m0: "c_inDB (conns ws i) = (i \<in> set (db_of ws i))" "distinct (db_of ws i)"
    using assms by (simp_all add: registered_ok_def)
  obtain ws1 where w1: "(if c_inDB (conns ws i) then removeConnection i ws else Inr ws) = Inr ws1"
    "same_but i ws ws1" "i \<notin> set (db_of ws1 i)" "distinct (db_of ws1 i)"
    "\<not> c_inDB (conns ws1 i)" "c_hidden (conns ws1 i) = c_hidden (conns ws i)"
  proof (cases "c_inDB (conns ws i)")
    case True
    from removeConnection_effect[of i ws] m0 True
    obtain w where "removeConnection i ws = Inr w" "same_but i ws w"
      "conns w i = (conns ws i)\<lparr>c_inDB := False\<rparr>" "i \<notin> set (db_of w i)" "distinct (db_of w i)"
      by auto
    then show ?thesis using True that[of w] by simp
  next
    case False
    then show ?thesis using m0 that[of ws] by (simp add: same_but_refl)
  qed
  let ?ws2 = "ws1\<lparr>conns := (conns ws1)(i := (conns ws1 i)\<lparr>c_x := x, c_y := y\<rparr>)\<rparr>"
  have r2: "registered_ok ?ws2 i" using w1 by (simp add: registered_ok_def db_of_def)
  have s2: "same_but i ws ?ws2" using w1(2) same_but_update[of "(conns ws1 i)\<lparr>c_x := x, c_y := y\<rparr>" ws1 i]
    by (auto intro: same_but_trans)
  have n2: "i \<notin> set (db_of ?ws2 i)" "distinct (db_of ?ws2 i)" using w1 by (simp_all add: db_of_def)
  have f2: "c_hidden (conns ?ws2 i) = c_hidden (conns ws i)" "c_x (conns ?ws2 i) = x" "c_y (conns ?ws2 i) = y"
    using w1 by simp_all
  show ?thesis
  proof (cases "c_hidden (conns ws i)")
    case True
    have "moveTo i x y ws = Inr ?ws2" using w1(1) f2 True by (simp add: moveTo_def Let_def)
    then show ?thesis using r2 s2 f2 n2 True by simp
  next
    case False
    from addConnection_effect[of i ?ws2] n2
    obtain ws' where w: "addConnection i ?ws2 = Inr ws'" "same_but i ?ws2 ws'"
      "conns ws' i = (conns ?ws2 i)\<lparr>c_inDB := True\<rparr>" "i \<in> set (db_of ws' i)" "distinct (db_of ws' i)"
      by auto
    have "moveTo i x y ws = Inr ws'" using w1(1) f2 False w(1) by (simp add: moveTo_def Let_def)
    moreover have "registered_ok ws' i" using w by (simp add: registered_ok_def)
    moreover have "same_but i ws ws'" using s2 w(2) by (rule same_but_trans)
    ultimately show ?thesis using w False f2 by simp
  qed
qed

lemma runOps_effect:
  "registered_ok ws i \<Longrightarrow> ops \<noteq> [] \<Longrightarrow>
   \<exists>ws'. runOps i ops ws = Inr ws' \<and> registered_ok ws' i \<and>
         (i \<in> set (db_of ws' i)) = (\<not> c_hidden (conns ws' i))"
proof (induction ops arbitrary: ws)
  case Nil
  then show ?case by simp
next
  case (Cons op ops)
  obtain ws1 where s: "runOps i [op] ws = Inr ws1" "registered_ok ws1 i"
    "(i \<in> set (db_of ws1 i)) = (\<not> c_hidden (conns ws1 i))"
  proof (cases op)
    case (MoveTo x y)
    from moveTo_effect[OF Cons.prems(1), of x y] show ?thesis
      using MoveTo that by auto
  next
    case (SetHidden h)
    from setHidden_effect[OF Cons.prems(1), of h] show ?thesis
      using SetHidden that by auto
  qed
  have step: "runOps i (op # ops) ws = runOps i ops ws1"
    using s(1) by (cases op) (auto split: sum.splits)
  show ?case
  proof (cases "ops = []")
    case True
    then show ?thesis using s step by simp
  next
    case False
    from Cons.IH[OF s(2) False] show ?thesis using step by simp
  qed
qed

lemma hide_unhide_effect:
  assumes "registered_ok ws i" "i \<in> set (db_of ws i)"
  shows "\<exists>ws'. runOps i [SetHidden True, SetHidden False] ws = Inr ws' \<and>
           (\<forall>t. set (dbs ws' t) = set (dbs ws t)) \<and> \<not> c_hidden (conns ws' i)"
proof -
  from setHidden_effect[OF assms(1), of True]
  obtain ws1 where a: "setHidden i True ws = Inr ws1" "registered_ok ws1 i" "same_but i ws ws1"
    by auto
  from setHidden_effect[OF a(2), of False]
  obtain ws2 where b: "setHidden i False ws1 = Inr ws2" "same_but i ws1 ws2"
    "i \<in> set (db_of ws2 i)" "\<not> c_hidden (conns ws2 i)"
    by auto
  have sb: "same_but i ws ws2" using a(3) b(2) by (rule same_but_trans)
  have ty: "c_type (conns ws2 i) = c_type (conns ws i)" using sb by (simp add: same_but_def)
  have "set (dbs ws2 t) = set (dbs ws t)" for t
  proof (cases "t = c_type (conns ws i)")
    case True
    have "set (dbs ws2 t) - {i} = set (dbs ws t) - {i}" using sb by (simp add: same_but_def)
    moreover have "i \<in> set (dbs ws2 t)" "i \<in> set (dbs ws t)"
      using b(3) assms(2) ty True by (simp_all add: db_of_def)
    ultimately show ?thesis by blast
  next
    case False
    then show ?thesis using sb by (simp add: same_but_def)
  qed
  then show ?thesis using a(1) b(1) b(4) by simp
qed

lemma findPosition_cong:
  "(\<And>j. j \<in> set db \<Longrightarrow> c_x (cs' j) = c_x (cs j) \<and> c_y (cs' j) = c_y (cs j)) \<Longrightarrow>
   c_x p' = c_x p \<Longrightarrow> c_y p' = c_y p \<Longrightarrow>
   findPosition cs' p' db = findPosition cs p db"
  by (induction db) (auto simp: keyLE_def)



lemma moveTo_hidden:
  assumes "c_hidden (conns ws i)" "\<not> c_inDB (conns ws i)"
  shows "moveTo i x y ws = Inr (ws\<lparr>conns := (conns ws)(i := (conns ws i)\<lparr>c_x := x, c_y := y\<rparr>)\<rparr>)"
  using assms by (simp add: moveTo_def Let_def)

lemma moveTo_registered:
  assumes "\<not> c_hidden (conns ws i)" "c_inDB (conns ws i)" "i \<in> set (db_of ws i)" "distinct (db_of ws i)"
  shows "moveTo i x y ws =
     Inr (ws\<lparr>conns := (conns ws)(i := (conns ws i)\<lparr>c_x := x, c_y := y\<rparr>),
             dbs := (dbs ws)(c_type (conns ws i) :=
               spliceIn (findPosition (conns ws) ((conns ws i)\<lparr>c_x := x, c_y := y\<rparr>)
                           (remove1 i (db_of ws i)))
                 i (remove1 i (db_of ws i)))\<rparr>)"
proof -
  let ?r = "remove1 i (db_of ws i)"
  let ?c = "(conns ws i)\<lparr>c_inDB := False, c_x := x, c_y := y\<rparr>"
  have n: "i \<notin> set ?r" using assms(4) by simp
  have fp: "findPosition ((conns ws)(i := ?c)) ?c ?r =
            findPosition (conns ws) ((conns ws i)\<lparr>c_x := x, c_y := y\<rparr>) ?r"
    using n by (intro findPosition_cong) auto
  have eq: "(conns ws i)\<lparr>c_x := x, c_y := y, c_inDB := True\<rparr> = (conns ws i)\<lparr>c_x := x, c_y := y\<rparr>"
    using assms(2) by (cases "conns ws i") simp
  show ?thesis
    using assms n fp
    by (simp add: moveTo_def Let_def removeConnection_def addConnection_def db_of_def eq)
qed



lemmas ws_eval = conn0_def freshWs_def hiddenWs_def twoWs_def db_of_def moveBy_def moveTo_def
  setHidden_def addConnection_def removeConnection_def spliceIn_def keyLE_def Let_def

lemma twoWs_ok: "registered_ok twoWs 1" "1 \<in> set (db_of twoWs 1)"
  "c_hidden (conns twoWs 1) = (1 \<notin> set (db_of twoWs 1))"
  "db_sorted (conns twoWs) (db_of twoWs 1)"
  by (simp_all add: registered_ok_def db_sorted_def ws_eval)

lemma twoWs_run:
  "runOps 1 [MoveTo 20 0, SetHidden True, MoveTo 3 3, SetHidden False] twoWs =
     Inr \<lparr>conns = (conns twoWs)(1 := conn0\<lparr>c_x := 3, c_y := 3, c_inDB := True\<rparr>),
          dbs = (\<lambda>t. if t = INPUT_VALUE then [1, 2] else [])\<rparr>"
  by (simp add: ws_eval fun_eq_iff)

lemma twoWs_hide_unhide:
  "runOps 1 [SetHidden True, SetHidden False] twoWs = Inr twoWs"
  by (simp add: ws_eval fun_eq_iff)

text \<open>
  Claim C2, as amended. For a connection whose \<open>inDB\<close> flag agrees with its database:
  after any non-empty sequence of \<open>moveTo\<close> and \<open>setHidden\<close> calls none has failed
  and the connection is in the database exactly if it is not hidden; and if the
  connection is in the database, \<open>setHidden(true)\<close> followed by \<open>setHidden(false)\<close>
  leaves every database with the members it had.
\<close>

theorem hidden_iff_not_indexed:
  assumes "registered_ok ws i"
  shows "(ops \<noteq> [] \<longrightarrow>
            (\<exists>ws'. runOps i ops ws = Inr ws' \<and>
               (i \<in> set (db_of ws' i)) = (\<not> c_hidden (conns ws' i)))) \<and>
         (i \<in> set (db_of ws i) \<longrightarrow>
            (\<exists>ws'. runOps i [SetHidden True, SetHidden False] ws = Inr ws' \<and>
               (\<forall>t. set (dbs ws' t) = set (dbs ws t))))"
proof (intro conjI impI)
  assume "ops \<noteq> []"
  from runOps_effect[OF assms this]
  show "\<exists>ws'. runOps i ops ws = Inr ws' \<and> (i \<in> set (db_of ws' i)) = (\<not> c_hidden (conns ws' i))"
    by blast
next
  assume "i \<in> set (db_of ws i)"
  from hide_unhide_effect[OF assms this]
  show "\<exists>ws'. runOps i [SetHidden True, SetHidden False] ws = Inr ws' \<and>
          (\<forall>t. set (dbs ws' t) = set (dbs ws t))"
    by blast
qed

theorem hidden_iff_not_indexed_witness:
  "registered_ok twoWs 1 \<and> 1 \<in> set (db_of twoWs 1) \<and>
   (case runOps 1 [MoveTo 20 0, SetHidden True, MoveTo 3 3, SetHidden False] twoWs of
      Inl e \<Rightarrow> False
    | Inr ws' \<Rightarrow> db_of ws' 1 = [1, 2] \<and> \<not> c_hidden (conns ws' 1)) \<and>
   (case runOps 1 [MoveTo 20 0, SetHidden True, MoveTo 3 3] twoWs of
      Inl e \<Rightarrow> False
    | Inr ws' \<Rightarrow> db_of ws' 1 = [2] \<and> c_hidden (conns ws' 1)) \<and>
   runOps 1 [SetHidden True, SetHidden False] twoWs = Inr twoWs"
proof -
  have a: "runOps 1 [MoveTo 20 0, SetHidden True, MoveTo 3 3] twoWs =
     Inr \<lparr>conns = (conns twoWs)(1 := conn0\<lparr>c_x := 3, c_y := 3, c_hidden := True\<rparr>),
          dbs = (\<lambda>t. if t = INPUT_VALUE then [2] else [])\<rparr>"
    by (simp add: ws_eval fun_eq_iff)
  have c1: "case runOps 1 [MoveTo 20 0, SetHidden True, MoveTo 3 3, SetHidden False] twoWs of
      Inl e \<Rightarrow> False
    | Inr ws' \<Rightarrow> db_of ws' 1 = [1, 2] \<and> \<not> c_hidden (conns ws' 1)"
    by (simp add: twoWs_run) (simp add: ws_eval)
  have c2: "case runOps 1 [MoveTo 20 0, SetHidden True, MoveTo 3 3] twoWs of
      Inl e \<Rightarrow> False
    | Inr ws' \<Rightarrow> db_of ws' 1 = [2] \<and> c_hidden (conns ws' 1)"
    by (simp add: a) (simp add: ws_eval)
  show ?thesis
    using hidden_iff_not_indexed[OF twoWs_ok(1), of "[MoveTo 20 0, SetHidden True, MoveTo 3 3, SetHidden False]"]
      twoWs_ok(1,2) c1 c2 twoWs_hide_unhide
    by blast
qed

text \<open>
  The claim as first stated fails for a hidden connection: it is not in the database
  before \<open>setHidden(true)\<close>, \<open>setHidden(false)\<close>, and it is in the database after.
\<close>

theorem hide_unhide_counterexample:
  "0 \<notin> set (db_of hiddenWs 0) \<and>
   (case runOps 0 [SetHidden True, SetHidden False] hiddenWs of
      Inl e \<Rightarrow> False
    | Inr ws' \<Rightarrow> 0 \<in> set (db_of ws' 0))"
  by (simp add: ws_eval)




section \<open>Bumping away\<close>




section \<open>Unhiding a subtree: effect and result\<close>









lemma visitedConns_unfold:
  "visitedConns ty (Cn i None) = [i]"
  "visitedConns ty (Cn i (Some b)) =
     i # (if descends (ty i) then visitedConns_each ty (shownConnections b) else [])"
  by simp_all

lemma connIds_unfold:
  "connIds (Cn i None) = [i]"
  "connIds (Cn i (Some b)) = i # connIds_each (getConnections b)"
  by simp_all

lemma visitedBlocks_unfold:
  "visitedBlocks ty (Cn i None) = []"
  "visitedBlocks ty (Cn i (Some b)) =
     (if descends (ty i) then b # visitedBlocks_each ty (shownConnections b) else [])"
  by simp_all

declare visitedBlocks.simps(1) [simp del]
declare visitedBlocks_unfold [simp]
declare visitedConns.simps(1) [simp del]
declare connIds.simps(1) [simp del]
declare visitedConns_unfold [simp]
declare connIds_unfold [simp]












section \<open>The closest connection\<close>




lemma keyLE_total: "keyLE a b \<or> keyLE b a"
  by (auto simp: keyLE_def)



lemma keyLE_trans: "keyLE a b \<Longrightarrow> keyLE b c \<Longrightarrow> keyLE a c"
  by (auto simp: keyLE_def)












section \<open>The databases stay sorted\<close>

text \<open>
  The order that \<open>closest\<close> and the round trip of \<open>moveBy\<close> rely on is kept by the
  operations themselves: \<open>moveTo\<close> and \<open>setHidden\<close> leave a sorted database sorted.
\<close>

lemma db_sorted_remove1: "db_sorted cs db \<Longrightarrow> db_sorted cs (remove1 i db)"
  unfolding db_sorted_def
proof (induction db)
  case Nil
  then show ?case by simp
next
  case (Cons a db)
  then show ?case by (auto dest: notin_set_remove1)
qed

lemma db_sorted_spliceIn:
  assumes "db_sorted cs db"
  shows "db_sorted cs (spliceIn (findPosition cs (cs i) db) i db)"
  using assms unfolding db_sorted_def
proof (induction db)
  case Nil
  then show ?case by (simp add: spliceIn_def)
next
  case (Cons a db)
  show ?case
  proof (cases "keyLE (cs a) (cs i)")
    case True
    have ih: "sorted_wrt (\<lambda>a b. keyLE (cs a) (cs b)) (spliceIn (findPosition cs (cs i) db) i db)"
      using Cons by simp
    have "\<forall>k\<in>set (spliceIn (findPosition cs (cs i) db) i db). keyLE (cs a) (cs k)"
      using Cons.prems True by (auto simp: set_spliceIn)
    then show ?thesis using True ih by (simp add: spliceIn_def)
  next
    case False
    then have le: "keyLE (cs i) (cs a)" using keyLE_total by blast
    have "\<forall>k\<in>set db. keyLE (cs i) (cs k)"
      using Cons.prems le keyLE_trans by auto
    then show ?thesis using False le Cons.prems by (simp add: spliceIn_def)
  qed
qed

lemma db_sorted_cong:
  assumes "\<And>j. j \<in> set db \<Longrightarrow> c_x (cs' j) = c_x (cs j) \<and> c_y (cs' j) = c_y (cs j)"
  shows "db_sorted cs' db = db_sorted cs db"
proof -
  have k: "keyLE (cs' a) (cs' b) = keyLE (cs a) (cs b)" if "a \<in> set db" "b \<in> set db" for a b
    using assms[OF that(1)] assms[OF that(2)] by (simp add: keyLE_def)
  show ?thesis
    unfolding db_sorted_def
  proof
    assume "sorted_wrt (\<lambda>a b. keyLE (cs' a) (cs' b)) db"
    then show "sorted_wrt (\<lambda>a b. keyLE (cs a) (cs b)) db"
      by (rule sorted_wrt_mono_rel[rotated]) (simp add: k)
  next
    assume "sorted_wrt (\<lambda>a b. keyLE (cs a) (cs b)) db"
    then show "sorted_wrt (\<lambda>a b. keyLE (cs' a) (cs' b)) db"
      by (rule sorted_wrt_mono_rel[rotated]) (simp add: k)
  qed
qed

lemma moveTo_hidden_registered:
  assumes "c_hidden (conns ws i)" "c_inDB (conns ws i)" "i \<in> set (db_of ws i)"
  shows "moveTo i x y ws =
     Inr (ws\<lparr>conns := (conns ws)(i := (conns ws i)\<lparr>c_inDB := False, c_x := x, c_y := y\<rparr>),
             dbs := (dbs ws)(c_type (conns ws i) := remove1 i (db_of ws i))\<rparr>)"
  using assms by (simp add: moveTo_def Let_def removeConnection_def db_of_def)

lemma moveTo_fresh:
  assumes "\<not> c_hidden (conns ws i)" "\<not> c_inDB (conns ws i)" "i \<notin> set (db_of ws i)"
  shows "moveTo i x y ws =
     Inr (ws\<lparr>conns := (conns ws)(i := (conns ws i)\<lparr>c_x := x, c_y := y, c_inDB := True\<rparr>),
             dbs := (dbs ws)(c_type (conns ws i) :=
               spliceIn (findPosition (conns ws) ((conns ws i)\<lparr>c_x := x, c_y := y\<rparr>) (db_of ws i))
                 i (db_of ws i))\<rparr>)"
proof -
  let ?c = "(conns ws i)\<lparr>c_x := x, c_y := y\<rparr>"
  have fp: "findPosition ((conns ws)(i := ?c)) ?c (db_of ws i) =
            findPosition (conns ws) ?c (db_of ws i)"
    using assms(3) by (intro findPosition_cong) auto
  show ?thesis
    using assms fp by (simp add: moveTo_def Let_def addConnection_def db_of_def)
qed

lemma db_sorted_insert:
  assumes "db_sorted cs r" "i \<notin> set r"
    and "\<And>j. j \<in> set r \<Longrightarrow> c_x (cs' j) = c_x (cs j) \<and> c_y (cs' j) = c_y (cs j)"
    and "c_x (cs' i) = c_x p" "c_y (cs' i) = c_y p"
  shows "db_sorted cs' (spliceIn (findPosition cs p r) i r)"
proof -
  have "findPosition cs' (cs' i) r = findPosition cs p r"
    using assms(3,4,5) by (intro findPosition_cong) auto
  moreover have "db_sorted cs' r" using assms(1) db_sorted_cong[OF assms(3)] by simp
  ultimately show ?thesis using db_sorted_spliceIn[of cs' r i] by simp
qed

text \<open>\<open>moveTo\<close> keeps a sorted database sorted.\<close>

lemma moveTo_keeps_sorted:
  assumes "registered_ok ws i" "db_sorted (conns ws) (db_of ws i)"
  shows "\<exists>ws'. moveTo i x y ws = Inr ws' \<and> db_sorted (conns ws') (db_of ws' i)"
proof -
  let ?db = "db_of ws i"
  let ?r = "remove1 i ?db"
  let ?p = "(conns ws i)\<lparr>c_x := x, c_y := y\<rparr>"
  have m: "c_inDB (conns ws i) = (i \<in> set ?db)" "distinct ?db"
    using assms(1) by (simp_all add: registered_ok_def)
  have sr: "db_sorted (conns ws) ?r" using assms(2) by (rule db_sorted_remove1)
  have nr: "i \<notin> set ?r" using m(2) by simp
  consider (a) "c_hidden (conns ws i)" "\<not> c_inDB (conns ws i)"
    | (b) "c_hidden (conns ws i)" "c_inDB (conns ws i)"
    | (c) "\<not> c_hidden (conns ws i)" "c_inDB (conns ws i)"
    | (d) "\<not> c_hidden (conns ws i)" "\<not> c_inDB (conns ws i)" by blast
  then show ?thesis
  proof cases
    case a
    let ?ws' = "ws\<lparr>conns := (conns ws)(i := ?p)\<rparr>"
    have n: "i \<notin> set ?db" using a m by simp
    have "db_sorted (conns ?ws') ?db = db_sorted (conns ws) ?db"
      using n by (intro db_sorted_cong) auto
    then have "db_sorted (conns ?ws') (db_of ?ws' i)" using assms(2) by (simp add: db_of_def)
    then show ?thesis using moveTo_hidden[OF a] by simp
  next
    case b
    let ?ws' = "ws\<lparr>conns := (conns ws)(i := (conns ws i)\<lparr>c_inDB := False, c_x := x, c_y := y\<rparr>),
             dbs := (dbs ws)(c_type (conns ws i) := ?r)\<rparr>"
    have i: "i \<in> set ?db" using b m by simp
    have "db_sorted (conns ?ws') ?r = db_sorted (conns ws) ?r"
      using nr by (intro db_sorted_cong) auto
    then have "db_sorted (conns ?ws') (db_of ?ws' i)" using sr by (simp add: db_of_def)
    then show ?thesis using moveTo_hidden_registered[OF b i] by simp
  next
    case c
    let ?db' = "spliceIn (findPosition (conns ws) ?p ?r) i ?r"
    let ?ws' = "ws\<lparr>conns := (conns ws)(i := ?p), dbs := (dbs ws)(c_type (conns ws i) := ?db')\<rparr>"
    have i: "i \<in> set ?db" using c m by simp
    have "db_sorted (conns ?ws') ?db'"
      using sr nr by (rule db_sorted_insert) (use nr in auto)
    then have "db_sorted (conns ?ws') (db_of ?ws' i)" by (simp add: db_of_def)
    then show ?thesis using moveTo_registered[OF c i m(2)] by simp
  next
    case d
    let ?db' = "spliceIn (findPosition (conns ws) ?p ?db) i ?db"
    let ?ws' = "ws\<lparr>conns := (conns ws)(i := (conns ws i)\<lparr>c_x := x, c_y := y, c_inDB := True\<rparr>),
                   dbs := (dbs ws)(c_type (conns ws i) := ?db')\<rparr>"
    have n: "i \<notin> set ?db" using d m by simp
    have "db_sorted (conns ?ws') ?db'"
      using assms(2) n by (rule db_sorted_insert) (use n in auto)
    then have "db_sorted (conns ?ws') (db_of ?ws' i)" by (simp add: db_of_def)
    then show ?thesis using moveTo_fresh[OF d n] by simp
  qed
qed


text \<open>\<open>setHidden\<close> keeps a sorted database sorted.\<close>

lemma setHidden_keeps_sorted:
  assumes "registered_ok ws i" "db_sorted (conns ws) (db_of ws i)"
  shows "\<exists>ws'. setHidden i h ws = Inr ws' \<and> db_sorted (conns ws') (db_of ws' i)"
proof -
  let ?db = "db_of ws i"
  let ?c = "(conns ws i)\<lparr>c_hidden := h\<rparr>"
  let ?ws1 = "ws\<lparr>conns := (conns ws)(i := ?c)\<rparr>"
  have m: "c_inDB (conns ws i) = (i \<in> set ?db)" "distinct ?db"
    using assms(1) by (simp_all add: registered_ok_def)
  have db1: "db_of ?ws1 i = ?db" by (simp add: db_of_def)
  have s1: "db_sorted (conns ?ws1) ?db"
    using assms(2) db_sorted_cong[of ?db "conns ?ws1" "conns ws"] by simp
  consider (rem) "h" "c_inDB (conns ws i)" | (add) "\<not> h" "\<not> c_inDB (conns ws i)"
    | (stay) "h = (\<not> c_inDB (conns ws i))" by blast
  then show ?thesis
  proof cases
    case rem
    let ?ws' = "?ws1\<lparr>conns := (conns ?ws1)(i := (conns ?ws1 i)\<lparr>c_inDB := False\<rparr>),
                       dbs := (dbs ?ws1)(c_type (conns ?ws1 i) := remove1 i ?db)\<rparr>"
    have i: "i \<in> set ?db" using rem m by simp
    have run: "setHidden i h ws = Inr ?ws'"
      using rem i by (simp add: setHidden_def Let_def removeConnection_def db_of_def)
    have "db_sorted (conns ?ws1) (remove1 i ?db)" using s1 by (rule db_sorted_remove1)
    moreover have "db_sorted (conns ?ws') (remove1 i ?db) = db_sorted (conns ?ws1) (remove1 i ?db)"
      by (intro db_sorted_cong) simp
    ultimately have "db_sorted (conns ?ws') (db_of ?ws' i)" by (simp add: db_of_def)
    then show ?thesis using run by simp
  next
    case add
    let ?db' = "spliceIn (findPosition (conns ?ws1) (conns ?ws1 i) ?db) i ?db"
    let ?ws' = "?ws1\<lparr>conns := (conns ?ws1)(i := (conns ?ws1 i)\<lparr>c_inDB := True\<rparr>),
                       dbs := (dbs ?ws1)(c_type (conns ?ws1 i) := ?db')\<rparr>"
    have n: "i \<notin> set ?db" using add m by simp
    have run: "setHidden i h ws = Inr ?ws'"
      using add n by (simp add: setHidden_def Let_def addConnection_def db_of_def)
    have "db_sorted (conns ?ws') ?db'"
      using s1 n by (rule db_sorted_insert) simp_all
    then have "db_sorted (conns ?ws') (db_of ?ws' i)" by (simp add: db_of_def)
    then show ?thesis using run by simp
  next
    case stay
    have "setHidden i h ws = Inr ?ws1" using stay by (auto simp: setHidden_def Let_def)
    then show ?thesis using s1 db1 by simp
  qed
qed

end
